theory Spec2Isabelle
  imports Main "HOL-Library.Multiset"
begin

section \<open>Strings and file names\<close>

text \<open>
  A Python \<open>str\<close> is a sequence of Unicode code points, so it is modelled as a list of
  natural numbers (one per code point) and not as a list of 8-bit characters: chat titles
  and message texts are mostly non-Latin.  \<open>u\<close> turns an ASCII literal into such a string.
\<close>

type_synonym ustring = "nat list"

definition u :: "string \<Rightarrow> ustring" where
  "u s = map of_char s"

text \<open>
  The characters matched by the pattern \<^verbatim>\<open>[\\/*?:"<>|]\<close> of \<open>sanitize_filename\<close>:
  backslash, slash, star, question mark, colon, double quote, less, greater, bar.
\<close>

definition invalid_chars :: "nat list" where
  "invalid_chars = [92, 47, 42, 63, 58, 34, 60, 62, 124]"

text \<open>\<open>re.sub(pattern, '_', name)\<close>: every matched character becomes an underscore (95).\<close>

definition re_sub_invalid :: "ustring \<Rightarrow> ustring" where
  "re_sub_invalid name = map (\<lambda>c. if c \<in> set invalid_chars then 95 else c) name"

text \<open>
  The characters \<open>str.strip()\<close> removes when called without argument: those for which
  \<open>str.isspace\<close> holds.
\<close>

definition is_space :: "nat \<Rightarrow> bool" where
  "is_space c \<longleftrightarrow>
     (9 \<le> c \<and> c \<le> 13) \<or> (28 \<le> c \<and> c \<le> 32) \<or> c = 133 \<or> c = 160 \<or> c = 5760 \<or>
     (8192 \<le> c \<and> c \<le> 8202) \<or> c = 8232 \<or> c = 8233 \<or> c = 8239 \<or> c = 8287 \<or> c = 12288"

definition rstrip_by :: "(nat \<Rightarrow> bool) \<Rightarrow> ustring \<Rightarrow> ustring" where
  "rstrip_by p s = rev (dropWhile p (rev s))"

definition strip :: "ustring \<Rightarrow> ustring" where
  "strip s = rstrip_by is_space (dropWhile is_space s)"

text \<open>\<open>name.rstrip('.')\<close>: the dot is code point 46.\<close>

definition rstrip_dot :: "ustring \<Rightarrow> ustring" where
  "rstrip_dot s = rstrip_by (\<lambda>c. c = 46) s"

definition sanitize_filename :: "ustring \<Rightarrow> ustring" where
  "sanitize_filename name = rstrip_dot (strip (re_sub_invalid name))"

text \<open>\<open>chat_title.replace(' ', '_')\<close>\<close>

definition replace_space :: "ustring \<Rightarrow> ustring" where
  "replace_space s = map (\<lambda>c. if c = 32 then 95 else c) s"

text \<open>
  \<open>MessageParser.get_chat_file_path\<close>.  \<open>ROOT_MESSAGES_DIR\<close> comes from the configuration
  module, which is not part of the sources; it is the parameter \<open>root\<close>.
\<close>

definition get_chat_file_path :: "ustring \<Rightarrow> ustring \<Rightarrow> ustring \<Rightarrow> ustring" where
  "get_chat_file_path root category chat_title =
     root @ u ''/'' @ category @ u ''/'' @ sanitize_filename (replace_space chat_title) @ u ''.json''"

section \<open>Message records and archive files\<close>

text \<open>
  A timestamp is an instant with second precision, counted in seconds.  The archive stores
  it as the text \<open>dd-mm-YYYY HH:MM:SS\<close> of that instant in the Moscow time zone;
  \<open>format_moscow_time\<close> and \<open>parse_moscow_time\<close> convert between the two with the time
  library, and the model keeps the instant itself where the code keeps its text.
\<close>

type_synonym timestamp = int

text \<open>The dictionary \<open>message_data\<close> built by \<open>parse_messages\<close>, the unit of storage.\<close>

record message_data =
  date :: timestamp
  sender_id :: "int option"
  sender_username :: "ustring option"
  msg_text :: ustring

text \<open>
  An element of a decoded archive array, seen the way the code reads it: \<open>Rec\<close> is an object
  whose \<open>date\<close> parses; \<open>Undated\<close> is an object without \<open>date\<close> or with an empty one
  (\<open>last_msg.get('date', '')\<close> is falsy); \<open>Junk\<close> is any other value (not an object, or a
  date that does not parse), on which reading the date raises.
\<close>

datatype entry = Rec message_data | Undated | Junk

text \<open>
  What \<open>json.load\<close> makes of a file: it raises a decoding error, or returns a value that is
  not a list, or returns a list.
\<close>

datatype content = Undecodable | NotArray | Array "entry list"

type_synonym filesystem = "ustring \<Rightarrow> content option"

text \<open>
  What the program does besides computing: the pauses, the calls of the message source and
  the lines written to the log.  The logger is set to level INFO, so \<open>logger.debug\<close> writes
  nothing and is left out; the progress bar is display only and is left out too.  A log
  entry carries the name of the function that writes it and the path or chat link it names.
\<close>

datatype event =
    Sleep nat
  | RandomDelay
  | GetEntity ustring
  | IterMessages
  | LogError string ustring
  | LogInfo string ustring

definition get_last_message_date :: "filesystem \<Rightarrow> ustring \<Rightarrow> timestamp option \<times> event list" where
  "get_last_message_date fs file_path =
     (case fs file_path of
        None \<Rightarrow> (None, [])
      | Some Undecodable \<Rightarrow> (None, [LogError ''get_last_message_date'' file_path])
      | Some NotArray \<Rightarrow> (None, [])
      | Some (Array messages) \<Rightarrow>
          (if messages = [] then (None, [])
           else (case last messages of
                   Rec last_msg \<Rightarrow> (Some (date last_msg), [])
                 | Undated \<Rightarrow> (None, [])
                 | Junk \<Rightarrow> (None, [LogError ''get_last_message_date'' file_path]))))"

text \<open>
  The sort key \<open>parse_moscow_time(x['date'])\<close> is computed for every element before the
  list is reordered, and raises on an element that is not a dated record: \<open>records_of\<close> is
  \<open>None\<close> then.  \<open>list.sort\<close> is stable, as \<open>sort_key\<close> is.
\<close>

fun records_of :: "entry list \<Rightarrow> message_data list option" where
  "records_of [] = Some []"
| "records_of (Rec r # es) = map_option ((#) r) (records_of es)"
| "records_of (Undated # es) = None"
| "records_of (Junk # es) = None"

definition sort_entries :: "entry list \<Rightarrow> entry list option" where
  "sort_entries es = map_option (\<lambda>rs. map Rec (sort_key date rs)) (records_of es)"

definition merge_and_sort_messages :: "entry list \<Rightarrow> entry list \<Rightarrow> entry list option" where
  "merge_and_sort_messages existing_messages new_messages =
     sort_entries (existing_messages @ new_messages)"

text \<open>
  \<open>save_messages\<close>.  The file system is a map from paths to decoded contents, so creating
  the parent directory and setting the permissions have nothing to act on.  The result is
  the path, the new file system and the log lines written.
\<close>

definition save_messages ::
  "message_data list \<Rightarrow> ustring \<Rightarrow> bool \<Rightarrow> filesystem \<Rightarrow> ustring \<times> filesystem \<times> event list" where
  "save_messages messages0 file_path append' fs =
     (let messages = sort_key date messages0 in
      if append' \<and> fs file_path \<noteq> None then
        (case fs file_path of
           Some (Array existing_messages) \<Rightarrow>
             (case sort_entries (existing_messages @ map Rec messages) of
                Some all_messages \<Rightarrow> (file_path, fs(file_path \<mapsto> Array all_messages), [])
              | None \<Rightarrow>
                  (file_path, fs(file_path \<mapsto> Array (map Rec messages)),
                   [LogError ''save_messages'' file_path]))
         | Some Undecodable \<Rightarrow>
             (file_path, fs(file_path \<mapsto> Array (map Rec (sort_key date ([] @ messages)))), [])
         | _ \<Rightarrow>
             (file_path, fs(file_path \<mapsto> Array (map Rec messages)),
              [LogError ''save_messages'' file_path]))
      else (file_path, fs(file_path \<mapsto> Array (map Rec messages)), []))"

section \<open>Reading the first date of an archive\<close>

text \<open>
  \<open>get_first_message_date\<close> reads the file as text, line by line.  The file is the list of
  its lines (each with its newline); \<open>f.readline()\<close> returns the next line, and the empty
  string at the end of the file, as often as it is called.
\<close>

definition readline :: "ustring list \<Rightarrow> ustring \<times> ustring list" where
  "readline ls = (case ls of [] \<Rightarrow> ([], []) | l # rest \<Rightarrow> (l, rest))"

definition startswith :: "nat \<Rightarrow> ustring \<Rightarrow> bool" where
  "startswith c s = (case s of [] \<Rightarrow> False | x # _ \<Rightarrow> x = c)"

text \<open>
  What \<open>parse_moscow_time(json.loads(line)['date'])\<close> does with a line: a decoding error or
  a missing key (the loop goes on), any other exception (caught by the outer handler), or a
  date.  The decoder is library code and is a parameter of the model.
\<close>

datatype line_result = DecodeOrKeyError | OtherException | FirstDate timestamp

text \<open>
  The \<open>while True\<close> loop.  It has no exit at the end of the file, so it is a partial
  function: \<open>None\<close> means that the loop does not return.
\<close>

partial_function (option) scan_lines ::
  "(ustring \<Rightarrow> line_result) \<Rightarrow> ustring \<Rightarrow> ustring list \<Rightarrow> (timestamp option \<times> event list) option" where
  "scan_lines loads file_path ls =
     (case readline ls of (line, rest) \<Rightarrow>
        if startswith 123 line then
          (case loads (rstrip_by (\<lambda>c. c = 44) (rstrip_by is_space line)) of
             FirstDate t \<Rightarrow> Some (Some t, [])
           | DecodeOrKeyError \<Rightarrow> scan_lines loads file_path rest
           | OtherException \<Rightarrow> Some (None, [LogError ''get_first_message_date'' file_path]))
        else scan_lines loads file_path rest)"

definition get_first_message_date ::
  "(ustring \<Rightarrow> line_result) \<Rightarrow> ustring \<Rightarrow> ustring list option \<Rightarrow> (timestamp option \<times> event list) option" where
  "get_first_message_date loads file_path file =
     (case file of
        None \<Rightarrow> Some (None, [])
      | Some ls \<Rightarrow>
          (case readline ls of (first_line, rest) \<Rightarrow>
             if startswith 91 first_line then scan_lines loads file_path rest
             else Some (None, [])))"

text \<open>
  The text \<open>json.dump(messages, f, ensure_ascii=False, indent=2)\<close> writes for a list of
  records, as lines: every record on lines of its own, the braces indented by two spaces and
  the members by four.  \<open>members\<close> gives the rendered members of a record
  (\<^verbatim>\<open>"date": "..."\<close> and so on; a JSON string has no raw newline in it).
\<close>

fun dump_members :: "ustring list \<Rightarrow> ustring list" where
  "dump_members [] = []"
| "dump_members [m] = [u ''    '' @ m @ [10]]"
| "dump_members (m # ms) = (u ''    '' @ m @ u '','' @ [10]) # dump_members ms"

fun dump_records :: "(message_data \<Rightarrow> ustring list) \<Rightarrow> message_data list \<Rightarrow> ustring list" where
  "dump_records members [] = []"
| "dump_records members [r] = [u ''  {'' @ [10]] @ dump_members (members r) @ [u ''  }'' @ [10]]"
| "dump_records members (r # rs) =
     [u ''  {'' @ [10]] @ dump_members (members r) @ [u ''  },'' @ [10]] @ dump_records members rs"

definition json_dump_lines :: "(message_data \<Rightarrow> ustring list) \<Rightarrow> message_data list \<Rightarrow> ustring list" where
  "json_dump_lines members rs =
     (if rs = [] then [u ''[]''] else [u ''['' @ [10]] @ dump_records members rs @ [u '']''])"

section \<open>The fetch engine\<close>

text \<open>
  What the message source hands over.  A sender has an id and possibly a user name; a
  message has a date, possibly a sender and possibly a text; an item of the stream is a
  message, or something without a \<open>date\<close> attribute.
\<close>

record sender =
  s_id :: "int option"
  s_username :: "ustring option"

record message =
  m_date :: "timestamp option"
  m_sender :: "sender option"
  m_text :: "ustring option"

datatype item = NoMessage | Msg message

text \<open>
  One call of \<open>client.iter_messages\<close>: the items it yields, newest first, and how the
  stream ends if it is read to its end: it is exhausted, or the source raises
  \<open>FloodWaitError\<close> with a number of seconds, or it raises something else.
\<close>

datatype ending = Exhausted | RateLimited nat | Failed

record attempt =
  items :: "item list"
  outcome :: ending

text \<open>The fields of \<open>MessageParser\<close> that change, and the effects so far.\<close>

record parser_state =
  request_count :: nat
  trace :: "event list"

definition emit :: "event list \<Rightarrow> parser_state \<Rightarrow> parser_state" where
  "emit es st = st\<lparr>trace := trace st @ es\<rparr>"

definition request_limit :: nat where
  "request_limit = 5000"

definition check_request_limit :: "parser_state \<Rightarrow> parser_state" where
  "check_request_limit st =
     (if request_count st + 1 \<ge> request_limit
      then emit [Sleep 3] (st\<lparr>request_count := 0\<rparr>)
      else st\<lparr>request_count := request_count st + 1\<rparr>)"

text \<open>The length of the random delay is a floating-point number; only the pause is recorded.\<close>

definition random_delay :: "parser_state \<Rightarrow> parser_state" where
  "random_delay st = emit [RandomDelay] st"

text \<open>Python's truth value of \<open>limit\<close> and of \<open>sender_id\<close>: \<open>None\<close> and \<open>0\<close> are false.\<close>

definition truthy :: "int option \<Rightarrow> bool" where
  "truthy x = (case x of None \<Rightarrow> False | Some i \<Rightarrow> i \<noteq> 0)"

text \<open>\<open>limit or 5000\<close>: the limit if it is true, else the default.\<close>

definition limit_or :: "int option \<Rightarrow> int \<Rightarrow> int" where
  "limit_or limit d = (case limit of None \<Rightarrow> d | Some l \<Rightarrow> if l = 0 then d else l)"

datatype error = ValueError string

text \<open>
  The \<open>if/elif\<close> chain at the head of \<open>parse_messages\<close>: the resume boundary
  \<open>last_date\<close>, the limit from there on, and the log lines of reading the archive; or the
  \<open>ValueError\<close> raised.
\<close>

definition determine_mode ::
  "filesystem \<Rightarrow> ustring \<Rightarrow> timestamp \<Rightarrow> string \<Rightarrow> int option \<Rightarrow>
     error + (timestamp option \<times> int option \<times> event list)" where
  "determine_mode fs file_path today_start mode limit =
     (if mode = ''last_saved'' then
        (case get_last_message_date fs file_path of (last_date, lg) \<Rightarrow>
           if last_date = None
           then Inr (last_date, Some (limit_or limit 5000), lg)
           else Inr (last_date, limit, lg))
      else if mode = ''today'' then
        (case get_last_message_date fs file_path of (last_date, lg) \<Rightarrow>
           (case last_date of
              Some l \<Rightarrow> if l \<ge> today_start then Inr (Some l, limit, lg)
                        else Inr (Some today_start, limit, lg)
            | None \<Rightarrow> Inr (Some today_start, limit, lg)))
      else if mode = ''all'' then Inr (None, limit, [])
      else if mode = ''count'' then
        (if \<not> truthy limit then Inl (ValueError ''For count mode, limit must be specified'')
         else (case get_last_message_date fs file_path of (last_date, lg) \<Rightarrow>
                 Inr (last_date, limit, lg)))
      else Inl (ValueError ''Unknown parsing mode''))"

text \<open>The stop conditions on the date of a message (the two \<open>break\<close>s on dates).\<close>

definition reached_stop :: "string \<Rightarrow> timestamp \<Rightarrow> timestamp option \<Rightarrow> timestamp \<Rightarrow> bool" where
  "reached_stop mode today_start last_date message_date =
     (if mode = ''today'' then
        message_date < today_start \<or>
        (case last_date of None \<Rightarrow> False | Some l \<Rightarrow> message_date \<le> l)
      else (case last_date of None \<Rightarrow> False | Some l \<Rightarrow> message_date \<le> l))"

text \<open>The dictionary built for a message with date \<open>d\<close> and sender \<open>s\<close>.\<close>

definition make_message_data :: "timestamp \<Rightarrow> sender \<Rightarrow> message \<Rightarrow> message_data" where
  "make_message_data d s m =
     \<lparr>date = d, sender_id = s_id s, sender_username = s_username s,
      msg_text = take 500 (case m_text m of None \<Rightarrow> [] | Some t \<Rightarrow> t)\<rparr>"

definition kept :: "message_data \<Rightarrow> bool" where
  "kept message_data \<longleftrightarrow> msg_text message_data \<noteq> [] \<or> truthy (sender_id message_data)"

text \<open>
  The body of the loop over the stream, for one item.  The first component says whether
  the loop is left (\<open>break\<close>); then come the accumulator \<open>messages_data\<close>, the counter
  \<open>message_count\<close> and the state.  A message whose date is \<open>None\<close> raises inside the
  \<open>try\<close>; the handler logs it and goes on.
\<close>

definition process_item ::
  "string \<Rightarrow> timestamp \<Rightarrow> timestamp option \<Rightarrow> int option \<Rightarrow> item \<Rightarrow>
     message_data list \<Rightarrow> int \<Rightarrow> parser_state \<Rightarrow> bool \<times> message_data list \<times> int \<times> parser_state" where
  "process_item mode today_start last_date limit it messages_data message_count st0 =
     (let st = random_delay (check_request_limit st0) in
      case it of
        NoMessage \<Rightarrow> (False, messages_data, message_count, st)
      | Msg m \<Rightarrow>
          (case m_date m of
             None \<Rightarrow> (False, messages_data, message_count, emit [LogError ''parse_messages'' []] st)
           | Some message_date \<Rightarrow>
               if reached_stop mode today_start last_date message_date
               then (True, messages_data, message_count, st)
               else (case m_sender m of
                 None \<Rightarrow> (False, messages_data, message_count, st)
               | Some s \<Rightarrow>
                   (let message_data = make_message_data message_date s m;
                        messages_data' = (if kept message_data then message_data # messages_data
                                          else messages_data);
                        message_count' = message_count + 1
                    in (case limit of
                          None \<Rightarrow> (False, messages_data', message_count', st)
                        | Some l \<Rightarrow> (message_count' \<ge> l, messages_data', message_count', st))))))"

text \<open>
  The loop: the first component says whether it was left by \<open>break\<close> (otherwise the stream
  was read to its end).
\<close>

fun paginate ::
  "string \<Rightarrow> timestamp \<Rightarrow> timestamp option \<Rightarrow> int option \<Rightarrow> item list \<Rightarrow>
     message_data list \<Rightarrow> int \<Rightarrow> parser_state \<Rightarrow> bool \<times> message_data list \<times> parser_state" where
  "paginate mode today_start last_date limit [] messages_data message_count st =
     (False, messages_data, st)"
| "paginate mode today_start last_date limit (it # its) messages_data message_count st =
     (case process_item mode today_start last_date limit it messages_data message_count st of
        (True, messages_data', message_count', st') \<Rightarrow> (True, messages_data', st')
      | (False, messages_data', message_count', st') \<Rightarrow>
          paginate mode today_start last_date limit its messages_data' message_count' st')"

text \<open>
  For stating what the loop returns: whether an item lets the loop go on when the boundary
  is \<open>T\<close>, and the record the loop adds for an item it goes past.
\<close>

definition newer_than :: "timestamp \<Rightarrow> item \<Rightarrow> bool" where
  "newer_than T it =
     (case it of NoMessage \<Rightarrow> True
      | Msg m \<Rightarrow> (case m_date m of None \<Rightarrow> True | Some d \<Rightarrow> T < d))"

definition record_of :: "item \<Rightarrow> message_data option" where
  "record_of it =
     (case it of NoMessage \<Rightarrow> None
      | Msg m \<Rightarrow>
          (case m_date m of None \<Rightarrow> None
           | Some d \<Rightarrow>
               (case m_sender m of None \<Rightarrow> None
                | Some s \<Rightarrow> if kept (make_message_data d s m)
                            then Some (make_message_data d s m) else None)))"

text \<open>
  What \<open>parse_messages\<close> is given besides its arguments: the archive root, the file system
  it reads and the start of the current day.
\<close>

record env =
  root :: ustring
  fs :: filesystem
  today_start :: timestamp

text \<open>
  \<open>parse_messages\<close>.  The source is the list of what its successive calls of
  \<open>iter_messages\<close> do; after a \<open>FloodWaitError\<close> the function sleeps and calls itself, with
  the limit as it stands then, on the rest of that list.  The result is \<open>None\<close> when the
  list is used up before the function returns: the source has raised \<open>FloodWaitError\<close> on
  every call.  Otherwise it is the \<open>ValueError\<close> raised or the list returned, with the state.
\<close>

fun parse_messages ::
  "env \<Rightarrow> parser_state \<Rightarrow> attempt list \<Rightarrow> ustring \<Rightarrow> ustring \<Rightarrow> string \<Rightarrow> int option \<Rightarrow>
     ((error + message_data list) \<times> parser_state) option" where
  "parse_messages e st [] chat_title category mode limit =
     (case determine_mode (fs e) (get_chat_file_path (root e) category chat_title)
             (today_start e) mode limit of
        Inl err \<Rightarrow> Some (Inl err, st)
      | Inr (last_date, limit', lg) \<Rightarrow> None)"
| "parse_messages e st (a # rest) chat_title category mode limit =
     (case determine_mode (fs e) (get_chat_file_path (root e) category chat_title)
             (today_start e) mode limit of
        Inl err \<Rightarrow> Some (Inl err, st)
      | Inr (last_date, limit', lg) \<Rightarrow>
          (case paginate mode (today_start e) last_date limit' (items a) [] 0
                  (emit (lg @ [IterMessages]) st) of
             (True, messages_data, st') \<Rightarrow> Some (Inr messages_data, st')
           | (False, messages_data, st') \<Rightarrow>
               (case outcome a of
                  Exhausted \<Rightarrow> Some (Inr messages_data, st')
                | RateLimited seconds \<Rightarrow>
                    parse_messages e (emit [Sleep seconds] st') rest chat_title category mode limit'
                | Failed \<Rightarrow>
                    Some (Inr messages_data, emit [LogError ''parse_messages'' chat_title] st'))))"

section \<open>The batch orchestrator\<close>

text \<open>
  What \<open>client.get_entity\<close> does with a chat link: it raises \<open>ChannelPrivateError\<close>, or
  something else, or returns a chat with a title; the chat comes with what the source does
  on the calls of \<open>iter_messages\<close> for it.
\<close>

datatype resolution = ChannelPrivate | ResolveError | Chat ustring "attempt list"

definition append_modes :: "string list" where
  "append_modes = [''last_saved'', ''today'', ''count'']"

text \<open>
  The loop of \<open>process_chat_file\<close> over the chat links, on the counters, the state and the
  file system.
\<close>

fun process_chats ::
  "ustring \<Rightarrow> timestamp \<Rightarrow> (ustring \<Rightarrow> resolution) \<Rightarrow> ustring \<Rightarrow> string \<Rightarrow> int option \<Rightarrow>
     ustring list \<Rightarrow> nat \<times> nat \<times> parser_state \<times> filesystem \<Rightarrow>
     (nat \<times> nat \<times> parser_state \<times> filesystem) option" where
  "process_chats rt today client category mode limit [] s = Some s"
| "process_chats rt today client category mode limit (chat_link # links)
       (processed_chats, updated_files, st, files) =
     (case client chat_link of
        ChannelPrivate \<Rightarrow>
          process_chats rt today client category mode limit links
            (processed_chats, updated_files,
             emit [GetEntity chat_link, LogError ''process_chat_file'' chat_link] st, files)
      | ResolveError \<Rightarrow>
          process_chats rt today client category mode limit links
            (processed_chats, updated_files,
             emit [GetEntity chat_link, LogError ''process_chat_file'' chat_link] st, files)
      | Chat title script \<Rightarrow>
          (case parse_messages \<lparr>root = rt, fs = files, today_start = today\<rparr>
                  (emit [GetEntity chat_link] st) script title category mode limit of
             None \<Rightarrow> None
           | Some (Inl err, st') \<Rightarrow>
               process_chats rt today client category mode limit links
                 (processed_chats, updated_files,
                  emit [LogError ''process_chat_file'' chat_link] st', files)
           | Some (Inr messages, st') \<Rightarrow>
               (if messages \<noteq> [] then
                  (case save_messages messages
                          (get_chat_file_path rt category (sanitize_filename (replace_space title)))
                          (mode \<in> set append_modes \<and>
                           files (get_chat_file_path rt category
                                    (sanitize_filename (replace_space title))) \<noteq> None)
                          files of
                     (saved_path, files', lg) \<Rightarrow>
                       process_chats rt today client category mode limit links
                         (processed_chats + 1, updated_files + 1,
                          emit (lg @ [LogInfo ''process_chat_file'' saved_path, Sleep 10]) st',
                          files'))
                else
                  process_chats rt today client category mode limit links
                    (processed_chats + 1, updated_files, emit [Sleep 10] st', files))))"

text \<open>
  \<open>process_chat_file\<close>: the category is the base name of the list file, \<open>file_lines\<close> its
  lines (\<open>None\<close> when it cannot be read); the chat links are the stripped non-blank lines.
\<close>

definition process_chat_file ::
  "ustring \<Rightarrow> timestamp \<Rightarrow> (ustring \<Rightarrow> resolution) \<Rightarrow> parser_state \<Rightarrow> filesystem \<Rightarrow> ustring \<Rightarrow>
     ustring list option \<Rightarrow> string \<Rightarrow> int option \<Rightarrow>
     (nat \<times> nat \<times> parser_state \<times> filesystem) option" where
  "process_chat_file rt today client st files category file_lines mode limit =
     (case file_lines of
        None \<Rightarrow>
          Some (0, 0,
                emit [LogInfo ''process_chat_file'' category, LogError ''process_chat_file'' category] st,
                files)
      | Some ls \<Rightarrow>
          (case process_chats rt today client category mode limit
                  (filter (\<lambda>l. l \<noteq> []) (map strip ls))
                  (0, 0, emit [LogInfo ''process_chat_file'' category] st, files) of
             None \<Rightarrow> None
           | Some (processed_chats, updated_files, st', files') \<Rightarrow>
               Some (processed_chats, updated_files,
                     emit [LogInfo ''process_chat_file'' category] st', files')))"

section \<open>The merge job\<close>

definition endswith :: "ustring \<Rightarrow> ustring \<Rightarrow> bool" where
  "endswith suffix s \<longleftrightarrow> length suffix \<le> length s \<and> drop (length s - length suffix) s = suffix"

text \<open>
  The walk over the archive tree: the files \<open>os.walk\<close> finds, in its order, each with what
  \<open>json.load\<close> makes of it (a file that is not UTF-8 text is handled here as one that does
  not decode).  The result is the list \<open>all_entries\<close> and the log lines.
\<close>

fun collect_entries :: "(ustring \<times> content) list \<Rightarrow> entry list \<times> event list" where
  "collect_entries [] = ([], [])"
| "collect_entries ((file_path, c) # files) =
     (case collect_entries files of (all_entries, lg) \<Rightarrow>
        if endswith (u ''.json'') file_path then
          (case c of
             Array data \<Rightarrow> (data @ all_entries, lg)
           | NotArray \<Rightarrow> (all_entries, lg)
           | Undecodable \<Rightarrow> (all_entries, LogError ''merge_json_files'' file_path # lg))
        else (all_entries, lg))"

text \<open>
  \<open>merge_json_files\<close>.  \<open>current_date\<close> and \<open>current_time\<close> are the texts
  \<open>DD-MM-YYYY\<close> and \<open>HH-MM\<close> of the clock; the output directory is a map from file names
  to the arrays written.  The result is the output directory afterwards and the log.
\<close>

definition output_name :: "ustring \<Rightarrow> ustring \<Rightarrow> (ustring \<Rightarrow> entry list option) \<Rightarrow> ustring" where
  "output_name current_date current_time out =
     (if out (u ''merged-'' @ current_date @ u ''.json'') \<noteq> None
      then u ''merged-'' @ current_date @ u ''-'' @ current_time @ u ''.json''
      else u ''merged-'' @ current_date @ u ''.json'')"

definition merge_json_files ::
  "(ustring \<times> content) list \<Rightarrow> ustring \<Rightarrow> ustring \<Rightarrow> (ustring \<Rightarrow> entry list option) \<Rightarrow>
     (ustring \<Rightarrow> entry list option) \<times> event list" where
  "merge_json_files walked current_date current_time out =
     (case collect_entries walked of (all_entries, lg) \<Rightarrow>
        (out(output_name current_date current_time out \<mapsto> all_entries),
         lg @ [LogInfo ''merge_json_files'' (output_name current_date current_time out)]))"

section \<open>Example data\<close>

text \<open>Records, an archive and a walk of the archive tree, for the concrete runs below.\<close>

definition example_record :: "timestamp \<Rightarrow> message_data" where
  "example_record t = \<lparr>date = t, sender_id = Some 7, sender_username = None, msg_text = u ''hi''\<rparr>"

definition example_path :: ustring where
  "example_path = u ''messages/news/chat.json''"

definition example_walk :: "(ustring \<times> content) list" where
  "example_walk =
     [(u ''messages/news/a.json'', Array [Rec (example_record 10), Rec (example_record 20)]),
      (u ''messages/news/b.json'', NotArray),
      (u ''messages/news/c.json'', Undecodable),
      (u ''messages/news/notes.txt'', Array [Junk])]"

definition example_message :: "timestamp \<Rightarrow> item" where
  "example_message t =
     Msg \<lparr>m_date = Some t, m_sender = Some \<lparr>s_id = Some 7, s_username = None\<rparr>, m_text = Some (u ''hi'')\<rparr>"

definition example_env :: env where
  "example_env = \<lparr>root = u ''messages'', fs = [example_path \<mapsto> Array [Rec (example_record 10)]], today_start = 0\<rparr>"

definition fresh_state :: parser_state where
  "fresh_state = \<lparr>request_count = 0, trace = []\<rparr>"

definition example_stream :: attempt where
  "example_stream = \<lparr>items = [example_message 12, example_message 11, example_message 10, example_message 9], outcome = Exhausted\<rparr>"

definition example_env_empty :: env where
  "example_env_empty = \<lparr>root = u ''messages'', fs = Map.empty, today_start = 0\<rparr>"

definition example_noisy_stream :: attempt where
  "example_noisy_stream =
     \<lparr>items = [Msg \<lparr>m_date = Some 15, m_sender = Some \<lparr>s_id = None, s_username = None\<rparr>, m_text = None\<rparr>,
               Msg \<lparr>m_date = Some 14, m_sender = None, m_text = Some (u ''x'')\<rparr>,
               NoMessage,
               Msg \<lparr>m_date = Some 13, m_sender = Some \<lparr>s_id = Some 7, s_username = None\<rparr>,
                    m_text = Some (replicate 600 120)\<rparr>,
               example_message 12, example_message 10, example_message 9],
      outcome = Failed\<rparr>"

definition example_flood :: attempt where
  "example_flood = \<lparr>items = [example_message 12], outcome = RateLimited 30\<rparr>"

definition example_client :: "ustring \<Rightarrow> resolution" where
  "example_client chat_link =
     (if chat_link = u ''t.me/private'' then ChannelPrivate else Chat (u ''chat'') [example_stream])"

text \<open>
  The members \<open>json.dump\<close> renders for the record of 10 o'clock on 1 January 2024 (34 is
  the double quote).
\<close>

definition example_members :: "ustring list" where
  "example_members =
     [[34] @ u ''date'' @ [34] @ u '': '' @ [34] @ u ''01-01-2024 10:00:00'' @ [34],
      [34] @ u ''sender_id'' @ [34] @ u '': 7'',
      [34] @ u ''sender_username'' @ [34] @ u '': null'',
      [34] @ u ''text'' @ [34] @ u '': '' @ [34] @ u ''hi'' @ [34]]"

section \<open>Properties of the file names\<close>

lemma rstrip_by_last: "rstrip_by p s \<noteq> [] \<Longrightarrow> \<not> p (last (rstrip_by p s))"
proof -
  assume ne: "rstrip_by p s \<noteq> []"
  then have d: "dropWhile p (rev s) \<noteq> []"
    by (simp add: rstrip_by_def)
  then have "\<not> p (hd (dropWhile p (rev s)))"
    by (rule hd_dropWhile)
  with d show ?thesis
    by (simp add: rstrip_by_def last_rev)
qed

lemma set_rstrip_by: "set (rstrip_by p s) \<subseteq> set s"
  using set_dropWhileD [of _ p "rev s"] by (auto simp: rstrip_by_def)

lemma rstrip_by_prefix: "\<exists>t. s = rstrip_by p s @ t"
proof -
  have "rev (takeWhile p (rev s) @ dropWhile p (rev s)) = rev (rev s)"
    by (simp only: takeWhile_dropWhile_id)
  then have "rev (dropWhile p (rev s)) @ rev (takeWhile p (rev s)) = s"
    by (simp only: rev_append rev_rev_ident)
  then have "s = rstrip_by p s @ rev (takeWhile p (rev s))"
    by (simp only: rstrip_by_def)
  then show ?thesis ..
qed

lemma rstrip_by_hd: "rstrip_by p s \<noteq> [] \<Longrightarrow> hd (rstrip_by p s) = hd s"
proof -
  assume ne: "rstrip_by p s \<noteq> []"
  obtain t where t: "s = rstrip_by p s @ t"
    using rstrip_by_prefix by blast
  have "hd (rstrip_by p s @ t) = hd (rstrip_by p s)"
    using ne by simp
  with t show ?thesis by simp
qed

lemma strip_hd: "strip s \<noteq> [] \<Longrightarrow> \<not> is_space (hd (strip s))"
proof -
  assume ne: "strip s \<noteq> []"
  then have "hd (strip s) = hd (dropWhile is_space s)"
    unfolding strip_def by (rule rstrip_by_hd)
  moreover have "dropWhile is_space s \<noteq> []"
  proof
    assume "dropWhile is_space s = []"
    then have "strip s = rstrip_by is_space []"
      by (simp only: strip_def)
    then have "strip s = []"
      by (simp add: rstrip_by_def)
    with ne show False by simp
  qed
  ultimately show ?thesis
    by (simp add: hd_dropWhile)
qed

lemma sanitize_filename_no_invalid: "c \<in> set (sanitize_filename name) \<Longrightarrow> c \<notin> set invalid_chars"
proof -
  assume "c \<in> set (sanitize_filename name)"
  then have "c \<in> set (strip (re_sub_invalid name))"
    using set_rstrip_by unfolding sanitize_filename_def rstrip_dot_def by blast
  then have "c \<in> set (dropWhile is_space (re_sub_invalid name))"
    using set_rstrip_by unfolding strip_def by blast
  then have "c \<in> set (re_sub_invalid name)"
    by (rule set_dropWhileD)
  then show ?thesis
    by (auto simp: re_sub_invalid_def invalid_chars_def)
qed

lemma sanitize_filename_hd:
  "sanitize_filename name \<noteq> [] \<Longrightarrow> \<not> is_space (hd (sanitize_filename name))"
proof -
  assume ne: "sanitize_filename name \<noteq> []"
  then have h: "hd (sanitize_filename name) = hd (strip (re_sub_invalid name))"
    unfolding sanitize_filename_def rstrip_dot_def by (rule rstrip_by_hd)
  have "strip (re_sub_invalid name) \<noteq> []"
    using ne by (auto simp: sanitize_filename_def rstrip_dot_def rstrip_by_def)
  then show ?thesis
    using h by (simp add: strip_hd)
qed

lemma sanitize_filename_last:
  "sanitize_filename name \<noteq> [] \<Longrightarrow> last (sanitize_filename name) \<noteq> 46"
  unfolding sanitize_filename_def rstrip_dot_def by (rule rstrip_by_last)

lemma sanitize_replace_no_space: "32 \<notin> set (sanitize_filename (replace_space t))"
proof
  assume "32 \<in> set (sanitize_filename (replace_space t))"
  then have "32 \<in> set (strip (re_sub_invalid (replace_space t)))"
    using set_rstrip_by unfolding sanitize_filename_def rstrip_dot_def by blast
  then have "32 \<in> set (dropWhile is_space (re_sub_invalid (replace_space t)))"
    using set_rstrip_by unfolding strip_def by blast
  then have "32 \<in> set (re_sub_invalid (replace_space t))"
    by (rule set_dropWhileD)
  then show False
    by (auto simp: re_sub_invalid_def replace_space_def invalid_chars_def split: if_splits)
qed

text \<open>
  The name is cut out of the title after the replacements: what \<open>strip\<close> and
  \<open>rstrip('.')\<close> remove is whitespace in front, and dots followed by whitespace behind.
\<close>

lemma rstrip_by_decomp:
  "s = rstrip_by p s @ rev (takeWhile p (rev s)) \<and> list_all p (rev (takeWhile p (rev s)))"
proof -
  have "rev (takeWhile p (rev s) @ dropWhile p (rev s)) = rev (rev s)"
    by (simp only: takeWhile_dropWhile_id)
  then have "rev (dropWhile p (rev s)) @ rev (takeWhile p (rev s)) = s"
    by (simp only: rev_append rev_rev_ident)
  then have "s = rstrip_by p s @ rev (takeWhile p (rev s))"
    by (simp only: rstrip_by_def)
  moreover have "list_all p (rev (takeWhile p (rev s)))"
    by (auto simp: list_all_iff dest: set_takeWhileD)
  ultimately show ?thesis ..
qed

lemma replaced_title:
  "re_sub_invalid (replace_space t) =
     map (\<lambda>c. if c = 32 \<or> c \<in> set invalid_chars then 95 else c) t"
  by (simp add: re_sub_invalid_def replace_space_def invalid_chars_def)

lemma sanitize_filename_decomp:
  "\<exists>pre dots ws.
     re_sub_invalid name = pre @ sanitize_filename name @ dots @ ws \<and>
     list_all is_space pre \<and> list_all (\<lambda>c. c = 46) dots \<and> list_all is_space ws \<and>
     (dots = [] \<longrightarrow> sanitize_filename name = [] \<or> \<not> is_space (last (sanitize_filename name)))"
proof -
  let ?m = "re_sub_invalid name"
  let ?pre = "takeWhile is_space ?m"
  let ?ws = "rev (takeWhile is_space (rev (dropWhile is_space ?m)))"
  let ?dots = "rev (takeWhile (\<lambda>c. c = 46) (rev (strip ?m)))"
  have a: "?m = ?pre @ dropWhile is_space ?m"
    by simp
  have b: "dropWhile is_space ?m = strip ?m @ ?ws" "list_all is_space ?ws"
    using rstrip_by_decomp [of "dropWhile is_space ?m" is_space] by (simp_all add: strip_def)
  have c: "strip ?m = sanitize_filename name @ ?dots" "list_all (\<lambda>c. c = 46) ?dots"
    using rstrip_by_decomp [of "strip ?m" "\<lambda>c. c = 46"]
    by (simp_all add: sanitize_filename_def rstrip_dot_def)
  have d: "list_all is_space ?pre"
    by (auto simp: list_all_iff dest: set_takeWhileD)
  have e: "sanitize_filename name = [] \<or> \<not> is_space (last (sanitize_filename name))" if "?dots = []"
  proof -
    have "sanitize_filename name = strip ?m"
      using c(1) that by simp
    moreover have "strip ?m = [] \<or> \<not> is_space (last (strip ?m))"
      using rstrip_by_last [of is_space "dropWhile is_space ?m"] by (auto simp: strip_def)
    ultimately show ?thesis by simp
  qed
  have "?m = ?pre @ sanitize_filename name @ ?dots @ ?ws"
    using a b(1) c(1) by (metis append.assoc)
  with b(2) c(2) d e show ?thesis
    by blast
qed

text \<open>
  C9 (as the code has it).  For every chat title, the sanitized file name used by
  \<open>get_chat_file_path\<close> is the title with every space and every one of the characters
  \<^verbatim>\<open>\ / * ? : " < > |\<close> replaced by an underscore, without the whitespace in front of it and
  without the dots followed by whitespace behind it.  Hence it contains none of those
  characters and no space, does not start with whitespace and does not end in a dot; and it
  ends in whitespace only when dots were removed behind it (see the counterexample).
\<close>

theorem sanitized_title_props:
  "(\<exists>pre dots ws.
      map (\<lambda>c. if c = 32 \<or> c \<in> set invalid_chars then 95 else c) t =
        pre @ sanitize_filename (replace_space t) @ dots @ ws \<and>
      list_all is_space pre \<and> list_all (\<lambda>c. c = 46) dots \<and> list_all is_space ws \<and>
      (dots = [] \<longrightarrow> sanitize_filename (replace_space t) = [] \<or>
                    \<not> is_space (last (sanitize_filename (replace_space t))))) \<and>
   (\<forall>c \<in> set (sanitize_filename (replace_space t)). c \<notin> set invalid_chars \<and> c \<noteq> 32) \<and>
   (sanitize_filename (replace_space t) \<noteq> [] \<longrightarrow>
      \<not> is_space (hd (sanitize_filename (replace_space t))) \<and>
      last (sanitize_filename (replace_space t)) \<noteq> 46)"
  using sanitize_filename_decomp [of "replace_space t"]
        sanitize_filename_no_invalid [of _ "replace_space t"]
        sanitize_replace_no_space [of t]
        sanitize_filename_hd [of "replace_space t"]
        sanitize_filename_last [of "replace_space t"]
  unfolding replaced_title
  by blast

text \<open>
  C9 at the title \<open><TAB>a b?.<TAB>\<close>: the space and the question mark become
  underscores, the tabs and the dot are removed.
\<close>

theorem sanitized_title_props_witness:
  "sanitize_filename (replace_space ([9] @ u ''a b?.'' @ [9])) = u ''a_b_'' \<and>
   (\<exists>pre dots ws.
      [9] @ u ''a_b_.'' @ [9] = pre @ u ''a_b_'' @ dots @ ws \<and>
      list_all is_space pre \<and> list_all (\<lambda>c. c = 46) dots \<and> list_all is_space ws) \<and>
   list_all (\<lambda>c. c \<notin> set invalid_chars \<and> c \<noteq> 32) (u ''a_b_'') \<and>
   \<not> is_space (hd (u ''a_b_'')) \<and> last (u ''a_b_'') \<noteq> 46"
proof -
  have e: "sanitize_filename (replace_space ([9] @ u ''a b?.'' @ [9])) = u ''a_b_''"
    by (simp add: sanitize_filename_def rstrip_dot_def strip_def rstrip_by_def re_sub_invalid_def
        replace_space_def invalid_chars_def is_space_def u_def)
  have m: "map (\<lambda>c. if c = 32 \<or> c \<in> set invalid_chars then 95 else c) ([9] @ u ''a b?.'' @ [9]) =
             [9] @ u ''a_b_.'' @ [9]"
    by (simp add: invalid_chars_def u_def)
  have ne: "u ''a_b_'' \<noteq> []"
    by (simp add: u_def)
  have ex: "\<exists>pre dots ws.
      [9] @ u ''a_b_.'' @ [9] = pre @ u ''a_b_'' @ dots @ ws \<and>
      list_all is_space pre \<and> list_all (\<lambda>c. c = 46) dots \<and> list_all is_space ws"
    by (intro exI [of _ "[9]"] exI [of _ "[46]"]) (simp add: u_def is_space_def)
  have "list_all (\<lambda>c. c \<notin> set invalid_chars \<and> c \<noteq> 32) (u ''a_b_'') \<and>
        \<not> is_space (hd (u ''a_b_'')) \<and> last (u ''a_b_'') \<noteq> 46"
    using sanitized_title_props [of "[9] @ u ''a b?.'' @ [9]"] ne unfolding e list_all_iff
    by blast
  with e ex show ?thesis
    by blast
qed

text \<open>
  C9, counterexample.  The title \<open>a<TAB>.\<close> keeps its tab when the spaces are replaced;
  \<open>strip\<close> finds nothing to remove (the title ends in a dot), and removing the dot afterwards
  leaves a name that ends in whitespace.
\<close>

theorem sanitized_title_counterexample:
  "sanitize_filename (replace_space [97, 9, 46]) = [97, 9] \<and>
   is_space (last (sanitize_filename (replace_space [97, 9, 46]))) \<and>
   get_chat_file_path (u ''messages'') (u ''news'') [97, 9, 46] =
     u ''messages/news/a'' @ [9] @ u ''.json''"
  by (simp add: sanitize_filename_def rstrip_dot_def strip_def rstrip_by_def re_sub_invalid_def
      replace_space_def invalid_chars_def is_space_def get_chat_file_path_def u_def)

section \<open>Properties of the archive store\<close>

lemma records_of_map_Rec: "records_of (map Rec rs) = Some rs"
  by (induction rs) simp_all

lemma records_of_append: "records_of (map Rec rs @ map Rec ns) = Some (rs @ ns)"
  using records_of_map_Rec [of "rs @ ns"] by simp

lemma merge_and_sort_messages_records:
  "merge_and_sort_messages (map Rec existing) (map Rec new) =
     Some (map Rec (sort_key date (existing @ new)))"
  by (simp add: merge_and_sort_messages_def sort_entries_def records_of_append)

text \<open>
  C2.  When the archive file holds an array of records, \<open>save_messages\<close> with
  \<open>append = True\<close> writes an array that has the pre-existing records and the new ones (as
  many as both together, none removed), sorted ascending by date, in whatever order the new
  records arrive.
\<close>

theorem save_messages_append:
  assumes "files file_path = Some (Array (map Rec existing))"
  shows "\<exists>out. fst (snd (save_messages new file_path True files)) file_path =
                 Some (Array (map Rec out)) \<and>
               length out = length existing + length new \<and>
               mset out = mset existing + mset new \<and>
               sorted (map date out)"
proof -
  let ?out = "sort_key date (existing @ sort_key date new)"
  have "fst (snd (save_messages new file_path True files)) file_path = Some (Array (map Rec ?out))"
    using assms records_of_append [of existing "sort_key date new"]
    by (simp add: save_messages_def sort_entries_def Let_def)
  moreover have "length ?out = length existing + length new"
    by simp
  moreover have "mset ?out = mset existing + mset new"
    by simp
  moreover have "sorted (map date ?out)"
    by simp
  ultimately show ?thesis
    by blast
qed

theorem save_messages_append_witness:
  "\<exists>out. fst (snd (save_messages [example_record 40, example_record 20] example_path True
                     [example_path \<mapsto> Array (map Rec [example_record 10, example_record 30])]))
             example_path = Some (Array (map Rec out)) \<and>
         length out = 4 \<and>
         mset out = mset [example_record 10, example_record 30] +
                    mset [example_record 40, example_record 20] \<and>
         sorted (map date out)"
  using save_messages_append
    [of "[example_path \<mapsto> Array (map Rec [example_record 10, example_record 30])]"
        example_path "[example_record 10, example_record 30]"
        "[example_record 40, example_record 20]"]
  by (simp add: eval_nat_numeral)

section \<open>Properties of reading the first date\<close>

text \<open>
  If the loop returns, some line it was given starts with an opening brace (123): no other
  branch of the loop returns.
\<close>

lemma scan_lines_returns_only_at_brace:
  assumes "scan_lines loads file_path ls = Some r"
  shows "\<exists>l \<in> set ls. startswith 123 l"
proof (rule scan_lines.raw_induct
    [where P = "\<lambda>loads file_path ls r. \<exists>l \<in> set ls. startswith 123 l", OF _ assms])
  fix scan :: "(ustring \<Rightarrow> line_result) \<Rightarrow> ustring \<Rightarrow> ustring list \<Rightarrow>
                 (timestamp option \<times> event list) option"
    and lo fp xs y
  assume IH: "\<And>lo fp xs y. scan lo fp xs = Some y \<Longrightarrow> \<exists>l \<in> set xs. startswith 123 l"
  assume step: "(case readline xs of
      (line, rest) \<Rightarrow>
        if startswith 123 line
        then case lo (rstrip_by (\<lambda>c. c = 44) (rstrip_by is_space line)) of
             DecodeOrKeyError \<Rightarrow> scan lo fp rest
             | OtherException \<Rightarrow> Some (None, [LogError ''get_first_message_date'' fp])
             | FirstDate t \<Rightarrow> Some (Some t, [])
        else scan lo fp rest) = Some y"
  show "\<exists>l \<in> set xs. startswith 123 l"
  proof (cases xs)
    case Nil
    with step have "scan lo fp [] = Some y"
      by (simp add: readline_def startswith_def)
    then have "\<exists>l \<in> set ([]::ustring list). startswith 123 l"
      by (rule IH)
    then show ?thesis by simp
  next
    case (Cons l rest)
    show ?thesis
    proof (cases "startswith 123 l")
      case True
      with Cons show ?thesis by auto
    next
      case False
      with step Cons have "scan lo fp rest = Some y"
        by (simp add: readline_def)
      then have "\<exists>l \<in> set rest. startswith 123 l"
        by (rule IH)
      with Cons show ?thesis by auto
    qed
  qed
qed

lemma dump_members_no_brace: "l \<in> set (dump_members ms) \<Longrightarrow> \<not> startswith 123 l"
  by (induction ms rule: dump_members.induct) (auto simp: startswith_def u_def)

lemma dump_records_no_brace: "l \<in> set (dump_records members rs) \<Longrightarrow> \<not> startswith 123 l"
  by (induction members rs rule: dump_records.induct)
     (auto simp: startswith_def u_def dest: dump_members_no_brace)

text \<open>
  C4 (the code at the archives \<open>save_messages\<close> writes).  On the text that \<open>json.dump\<close>
  with \<open>indent=2\<close> writes for any list of records, empty or not, \<open>get_first_message_date\<close>
  does not return: the first line starts with a bracket, so the loop is entered; no later
  line starts with a brace, because the braces are indented; and at the end of the file
  \<open>readline\<close> keeps returning the empty string.
\<close>

theorem get_first_message_date_never_returns:
  "get_first_message_date loads file_path (Some (json_dump_lines members rs)) = None"
proof (cases "scan_lines loads file_path (snd (readline (json_dump_lines members rs)))")
  case None
  then show ?thesis
    by (auto simp: get_first_message_date_def json_dump_lines_def readline_def startswith_def u_def)
next
  case (Some r)
  then have "\<exists>l \<in> set (snd (readline (json_dump_lines members rs))). startswith 123 l"
    by (rule scan_lines_returns_only_at_brace)
  then have False
    by (auto simp: json_dump_lines_def readline_def startswith_def u_def
        dest: dump_records_no_brace split: if_splits)
  then show ?thesis ..
qed

text \<open>
  C4 at one archive: the eight lines written for a single record, on which the function
  does not return, while \<open>get_last_message_date\<close> returns the date of the record.
\<close>

theorem get_first_message_date_never_returns_witness:
  "json_dump_lines (\<lambda>r. example_members) [example_record 1704092400] =
     [u ''['' @ [10],
      u ''  {'' @ [10],
      u ''    '' @ [34] @ u ''date'' @ [34] @ u '': '' @ [34] @ u ''01-01-2024 10:00:00'' @ [34]
        @ u '','' @ [10],
      u ''    '' @ [34] @ u ''sender_id'' @ [34] @ u '': 7'' @ u '','' @ [10],
      u ''    '' @ [34] @ u ''sender_username'' @ [34] @ u '': null'' @ u '','' @ [10],
      u ''    '' @ [34] @ u ''text'' @ [34] @ u '': '' @ [34] @ u ''hi'' @ [34] @ [10],
      u ''  }'' @ [10],
      u '']''] \<and>
   get_first_message_date (\<lambda>line. DecodeOrKeyError) example_path
     (Some (json_dump_lines (\<lambda>r. example_members) [example_record 1704092400])) = None \<and>
   get_last_message_date [example_path \<mapsto> Array [Rec (example_record 1704092400)]] example_path =
     (Some 1704092400, [])"
  using get_first_message_date_never_returns
    [of "\<lambda>line. DecodeOrKeyError" example_path "\<lambda>r. example_members"
        "[example_record 1704092400]"]
  by (simp add: json_dump_lines_def example_members_def get_last_message_date_def
      example_record_def)

text \<open>The file that is missing and the file without a leading bracket give "absent".\<close>

lemma get_first_message_date_absent:
  "get_first_message_date loads file_path None = Some (None, [])"
  "get_first_message_date loads file_path (Some []) = Some (None, [])"
  by (simp_all add: get_first_message_date_def readline_def startswith_def)

section \<open>Properties of the merge job\<close>

lemma collect_entries_fst:
  "fst (collect_entries walked) =
     concat (map (\<lambda>f. case snd f of Array data \<Rightarrow> data | _ \<Rightarrow> [])
               (filter (\<lambda>f. endswith (u ''.json'') (fst f)) walked))"
  by (induction walked) (auto simp: case_prod_beta split: content.splits)

lemma collect_entries_snd:
  "snd (collect_entries walked) =
     map (\<lambda>f. LogError ''merge_json_files'' (fst f))
       (filter (\<lambda>f. endswith (u ''.json'') (fst f) \<and> snd f = Undecodable) walked)"
  by (induction walked) (auto simp: case_prod_beta split: content.splits)

lemma collect_example_walk:
  "collect_entries example_walk =
     ([Rec (example_record 10), Rec (example_record 20)],
      [LogError ''merge_json_files'' (u ''messages/news/c.json'')])"
  by (simp add: example_walk_def endswith_def u_def)

text \<open>
  C10.  The snapshot written by the merge job is the concatenation, in walk order, of the
  arrays of the files whose name ends in \<open>.json\<close>; a file that decodes to something else
  adds nothing to it and nothing to the log; the error lines of the log are exactly those of
  the \<open>.json\<close> files that do not decode, and the only other line is the final summary.
\<close>

theorem merge_json_files_selects:
  "fst (merge_json_files walked d t out) (output_name d t out) =
     Some (concat (map (\<lambda>f. case snd f of Array data \<Rightarrow> data | _ \<Rightarrow> [])
                     (filter (\<lambda>f. endswith (u ''.json'') (fst f)) walked))) \<and>
   snd (merge_json_files walked d t out) =
     map (\<lambda>f. LogError ''merge_json_files'' (fst f))
       (filter (\<lambda>f. endswith (u ''.json'') (fst f) \<and> snd f = Undecodable) walked)
     @ [LogInfo ''merge_json_files'' (output_name d t out)]"
  using collect_entries_fst [of walked] collect_entries_snd [of walked]
  by (simp add: merge_json_files_def case_prod_beta)

text \<open>
  C5 (as the code has it).  A run never replaces the snapshot \<open>merged-<date>.json\<close> of its
  day: when that file exists the run leaves it as it is and writes
  \<open>merged-<date>-<HH-MM>.json\<close>.  Two runs on the same day over an unchanged archive tree
  that start without a snapshot of the day leave two files with the same content and
  different names, and every other file as it was.
\<close>

theorem merge_json_files_snapshots:
  "(out (u ''merged-'' @ d @ u ''.json'') \<noteq> None \<longrightarrow>
      fst (merge_json_files walked d t out) (u ''merged-'' @ d @ u ''.json'') =
        out (u ''merged-'' @ d @ u ''.json'') \<and>
      fst (merge_json_files walked d t out) (u ''merged-'' @ d @ u ''-'' @ t @ u ''.json'') =
        Some (fst (collect_entries walked))) \<and>
   (out (u ''merged-'' @ d @ u ''.json'') = None \<longrightarrow>
      fst (merge_json_files walked d t' (fst (merge_json_files walked d t out))) =
        out(u ''merged-'' @ d @ u ''.json'' \<mapsto> fst (collect_entries walked),
            u ''merged-'' @ d @ u ''-'' @ t' @ u ''.json'' \<mapsto> fst (collect_entries walked)) \<and>
      u ''merged-'' @ d @ u ''.json'' \<noteq> u ''merged-'' @ d @ u ''-'' @ t' @ u ''.json'')"
proof -
  have dash: "u ''-'' \<noteq> []"
    by (simp add: u_def)
  show ?thesis
    using dash by (simp add: merge_json_files_def output_name_def case_prod_beta)
qed

theorem merge_json_files_snapshots_witness:
  "fst (merge_json_files example_walk (u ''03-11-2026'') (u ''10-05'')
          [u ''merged-'' @ u ''03-11-2026'' @ u ''.json'' \<mapsto> [Junk]])
     (u ''merged-'' @ u ''03-11-2026'' @ u ''.json'') = Some [Junk] \<and>
   fst (merge_json_files example_walk (u ''03-11-2026'') (u ''10-05'')
          [u ''merged-'' @ u ''03-11-2026'' @ u ''.json'' \<mapsto> [Junk]])
     (u ''merged-'' @ u ''03-11-2026'' @ u ''-'' @ u ''10-05'' @ u ''.json'') =
     Some [Rec (example_record 10), Rec (example_record 20)] \<and>
   fst (merge_json_files example_walk (u ''03-11-2026'') (u ''10-07'')
          (fst (merge_json_files example_walk (u ''03-11-2026'') (u ''10-05'') Map.empty))) =
     [u ''merged-'' @ u ''03-11-2026'' @ u ''.json'' \<mapsto>
        [Rec (example_record 10), Rec (example_record 20)],
      u ''merged-'' @ u ''03-11-2026'' @ u ''-'' @ u ''10-07'' @ u ''.json'' \<mapsto>
        [Rec (example_record 10), Rec (example_record 20)]]"
  using merge_json_files_snapshots
          [of "[u ''merged-'' @ u ''03-11-2026'' @ u ''.json'' \<mapsto> [Junk]]" "u ''03-11-2026''"
              example_walk "u ''10-05''"]
        merge_json_files_snapshots
          [of Map.empty "u ''03-11-2026''" example_walk "u ''10-05''" "u ''10-07''"]
  by (simp add: collect_example_walk)

text \<open>
  C5, counterexample.  Three runs on one day over the same archive tree, at 10:05, 10:07
  and 10:07: the second and the third run choose the same name, so the third writes no new
  file, and the directory holds two snapshots after it as it did before it.
\<close>

theorem merge_json_files_same_minute_counterexample:
  "output_name (u ''03-11-2026'') (u ''10-07'')
     (fst (merge_json_files example_walk (u ''03-11-2026'') (u ''10-07'')
        (fst (merge_json_files example_walk (u ''03-11-2026'') (u ''10-05'') Map.empty)))) =
   output_name (u ''03-11-2026'') (u ''10-07'')
     (fst (merge_json_files example_walk (u ''03-11-2026'') (u ''10-05'') Map.empty)) \<and>
   fst (merge_json_files example_walk (u ''03-11-2026'') (u ''10-07'')
     (fst (merge_json_files example_walk (u ''03-11-2026'') (u ''10-07'')
        (fst (merge_json_files example_walk (u ''03-11-2026'') (u ''10-05'') Map.empty))))) =
   fst (merge_json_files example_walk (u ''03-11-2026'') (u ''10-07'')
        (fst (merge_json_files example_walk (u ''03-11-2026'') (u ''10-05'') Map.empty)))"
  by (simp add: merge_json_files_def output_name_def collect_example_walk u_def)

section \<open>Properties of the fetch engine\<close>

subsection \<open>The loop and the restart\<close>

text \<open>
  An item either leaves the accumulator as it is or puts one record in front of it: the
  record of a message with a date and a sender, for which no stop condition held and which
  has a text or a sender id.
\<close>

lemma process_item_cases:
  assumes "process_item mode ts last_date limit it acc cnt st = (b, acc', cnt', st')"
  shows "acc' = acc \<or>
         (\<exists>d s m. it = Msg m \<and> m_date m = Some d \<and> m_sender m = Some s \<and>
                  \<not> reached_stop mode ts last_date d \<and> kept (make_message_data d s m) \<and>
                  acc' = make_message_data d s m # acc)"
  using assms
  by (auto simp: process_item_def Let_def split: item.splits option.splits if_splits)

lemma paginate_new_records:
  assumes "paginate mode ts last_date limit its acc cnt st = (b, acc', st')"
    and "\<And>r. r \<in> set acc \<Longrightarrow> Q r"
    and "\<And>d s m. \<not> reached_stop mode ts last_date d \<Longrightarrow> kept (make_message_data d s m) \<Longrightarrow>
            Q (make_message_data d s m)"
  shows "\<forall>r \<in> set acc'. Q r"
  using assms
proof (induction its arbitrary: acc cnt st)
  case Nil
  then show ?case by simp
next
  case (Cons it its)
  obtain b1 acc1 cnt1 st1 where p: "process_item mode ts last_date limit it acc cnt st = (b1, acc1, cnt1, st1)"
    by (metis prod_cases4)
  have q1: "\<And>r. r \<in> set acc1 \<Longrightarrow> Q r"
    using process_item_cases [OF p] Cons.prems(2,3) by auto
  show ?case
  proof (cases b1)
    case True
    with p Cons.prems(1) have "acc' = acc1" by simp
    with q1 show ?thesis by simp
  next
    case False
    with p Cons.prems(1) have "paginate mode ts last_date limit its acc1 cnt1 st1 = (b, acc', st')"
      by simp
    then show ?thesis
      using q1 Cons.prems(3) by (rule Cons.IH)
  qed
qed

text \<open>
  The head of \<open>parse_messages\<close> gives the same boundary and limit when it is run again on
  the limit it has computed, as the recursive call does.
\<close>

lemma determine_mode_idem:
  assumes "determine_mode files p ts mode limit = Inr (last_date, limit', lg)"
  shows "determine_mode files p ts mode limit' = Inr (last_date, limit', lg)"
  using assms
  by (auto simp: determine_mode_def truthy_def limit_or_def split: if_splits prod.splits option.splits)

lemma parse_messages_limit_idem:
  assumes "determine_mode (fs e) (get_chat_file_path (root e) category title) (today_start e) mode limit
             = Inr (last_date, limit', lg)"
  shows "parse_messages e st script title category mode limit' =
         parse_messages e st script title category mode limit"
  using assms determine_mode_idem [OF assms] by (cases script) simp_all

lemma parse_messages_Inl:
  assumes "determine_mode (fs e) (get_chat_file_path (root e) category title) (today_start e) mode limit
             = Inl err"
  shows "parse_messages e st script title category mode limit = Some (Inl err, st)"
  using assms by (cases script) simp_all

lemma parse_messages_Cons_Inr:
  assumes "determine_mode (fs e) (get_chat_file_path (root e) category title) (today_start e) mode limit
             = Inr (last_date, limit', lg)"
    and "paginate mode (today_start e) last_date limit' (items a) [] 0 (emit (lg @ [IterMessages]) st)
             = (b, acc, st1)"
  shows "parse_messages e st (a # rest) title category mode limit =
           (if b then Some (Inr acc, st1)
            else (case outcome a of
                    Exhausted \<Rightarrow> Some (Inr acc, st1)
                  | RateLimited seconds \<Rightarrow>
                      parse_messages e (emit [Sleep seconds] st1) rest title category mode limit'
                  | Failed \<Rightarrow> Some (Inr acc, emit [LogError ''parse_messages'' title] st1)))"
  using assms by (cases b) simp_all

lemma parse_messages_new_records:
  assumes "parse_messages e st script title category mode limit = Some (Inr messages, st')"
    and "determine_mode (fs e) (get_chat_file_path (root e) category title) (today_start e) mode limit
             = Inr (last_date, limit', lg)"
    and "\<And>d s m. \<not> reached_stop mode (today_start e) last_date d \<Longrightarrow>
            kept (make_message_data d s m) \<Longrightarrow> Q (make_message_data d s m)"
  shows "\<forall>r \<in> set messages. Q r"
  using assms
proof (induction script arbitrary: st limit)
  case Nil
  then show ?case by simp
next
  case (Cons a rest)
  obtain b acc st1 where pg:
    "paginate mode (today_start e) last_date limit' (items a) [] 0 (emit (lg @ [IterMessages]) st)
       = (b, acc, st1)"
    by (metis prod_cases3)
  have acc_ok: "\<forall>r \<in> set acc. Q r"
    using pg _ Cons.prems(3) by (rule paginate_new_records) simp
  note eq = parse_messages_Cons_Inr [OF Cons.prems(2) pg, of rest]
  show ?case
  proof (cases "\<not> b \<and> (\<exists>w. outcome a = RateLimited w)")
    case True
    then obtain w where w: "outcome a = RateLimited w" and nb: "\<not> b"
      by blast
    have "parse_messages e (emit [Sleep w] st1) rest title category mode limit' =
            Some (Inr messages, st')"
      using Cons.prems(1) eq w nb by simp
    then show ?thesis
      using determine_mode_idem [OF Cons.prems(2)] Cons.prems(3) by (rule Cons.IH)
  next
    case False
    then have "messages = acc"
      using Cons.prems(1) eq by (cases b; cases "outcome a") auto
    with acc_ok show ?thesis by simp
  qed
qed

text \<open>
  The function returns when the source stops raising \<open>FloodWaitError\<close>: if the last
  scripted call of \<open>iter_messages\<close> ends in another way, there is a result.
\<close>

lemma parse_messages_returns_list:
  assumes "determine_mode (fs e) (get_chat_file_path (root e) category title) (today_start e) mode limit
             = Inr (last_date, limit', lg)"
    and "script \<noteq> []" and "\<And>w. outcome (last script) \<noteq> RateLimited w"
  shows "\<exists>messages st'. parse_messages e st script title category mode limit = Some (Inr messages, st')"
  using assms
proof (induction script arbitrary: st limit)
  case Nil
  then show ?case by simp
next
  case (Cons a rest)
  obtain b acc st1 where pg:
    "paginate mode (today_start e) last_date limit' (items a) [] 0 (emit (lg @ [IterMessages]) st)
       = (b, acc, st1)"
    by (metis prod_cases3)
  note eq = parse_messages_Cons_Inr [OF Cons.prems(1) pg, of rest]
  show ?case
  proof (cases "\<not> b \<and> (\<exists>w. outcome a = RateLimited w)")
    case True
    then obtain w where w: "outcome a = RateLimited w" and nb: "\<not> b"
      by blast
    have ne: "rest \<noteq> []"
      using Cons.prems(3) [of w] w by auto
    then have l: "\<And>w. outcome (last rest) \<noteq> RateLimited w"
      using Cons.prems(3) by simp
    have "\<exists>messages st'. parse_messages e (emit [Sleep w] st1) rest title category mode limit' =
            Some (Inr messages, st')"
      using determine_mode_idem [OF Cons.prems(1)] ne l by (rule Cons.IH)
    then show ?thesis
      using eq w nb by simp
  next
    case False
    then show ?thesis
      using eq by (cases b; cases "outcome a") auto
  qed
qed

text \<open>
  The list returned does not depend on the request counter or on the effects so far.
\<close>

lemma process_item_state_indep:
  "(case process_item mode ts last_date limit it acc cnt st of (b, acc', cnt', st') \<Rightarrow> (b, acc', cnt')) =
   (case process_item mode ts last_date limit it acc cnt st0 of (b, acc', cnt', st') \<Rightarrow> (b, acc', cnt'))"
  by (simp add: process_item_def Let_def split: item.splits option.splits)

lemma paginate_state_indep:
  "(case paginate mode ts last_date limit its acc cnt st of (b, acc', st') \<Rightarrow> (b, acc')) =
   (case paginate mode ts last_date limit its acc cnt st0 of (b, acc', st') \<Rightarrow> (b, acc'))"
proof (induction its arbitrary: acc cnt st st0)
  case Nil
  show ?case by simp
next
  case (Cons it its)
  obtain b1 acc1 cnt1 st1 where p: "process_item mode ts last_date limit it acc cnt st = (b1, acc1, cnt1, st1)"
    by (metis prod_cases4)
  obtain b2 acc2 cnt2 st2 where q: "process_item mode ts last_date limit it acc cnt st0 = (b2, acc2, cnt2, st2)"
    by (metis prod_cases4)
  have same: "b2 = b1" "acc2 = acc1" "cnt2 = cnt1"
    using process_item_state_indep [of mode ts last_date limit it acc cnt st st0] p q by simp_all
  show ?case
    using p q same Cons.IH [of acc1 cnt1 st1 st2] by (cases b1) simp_all
qed

lemma parse_messages_state_indep:
  "map_option fst (parse_messages e st script title category mode limit) =
   map_option fst (parse_messages e st0 script title category mode limit)"
proof (induction script arbitrary: st st0 limit)
  case Nil
  show ?case by (simp split: sum.splits)
next
  case (Cons a rest)
  show ?case
  proof (cases "determine_mode (fs e) (get_chat_file_path (root e) category title) (today_start e) mode limit")
    case (Inl err)
    then show ?thesis by simp
  next
    case (Inr x)
    then obtain last_date limit' lg where
      dm: "determine_mode (fs e) (get_chat_file_path (root e) category title) (today_start e) mode limit
             = Inr (last_date, limit', lg)"
      by (metis prod_cases3)
    obtain b acc st1 where pg:
      "paginate mode (today_start e) last_date limit' (items a) [] 0 (emit (lg @ [IterMessages]) st)
         = (b, acc, st1)"
      by (metis prod_cases3)
    obtain b' acc' st1' where pg':
      "paginate mode (today_start e) last_date limit' (items a) [] 0 (emit (lg @ [IterMessages]) st0)
         = (b', acc', st1')"
      by (metis prod_cases3)
    have same: "b' = b" "acc' = acc"
      using paginate_state_indep [of mode "today_start e" last_date limit' "items a" "[]" 0
          "emit (lg @ [IterMessages]) st" "emit (lg @ [IterMessages]) st0"] pg pg' by simp_all
    show ?thesis
      unfolding parse_messages_Cons_Inr [OF dm pg] parse_messages_Cons_Inr [OF dm pg'] same
      using Cons.IH by (simp split: ending.splits)
  qed
qed

text \<open>
  Without a limit, in mode \<open>last_saved\<close> with boundary \<open>T\<close>, the loop returns the records of
  the items before the first one dated at or before \<open>T\<close>; with a limit \<open>L\<close> of at least 1
  it returns at most \<open>L\<close> records.
\<close>

lemma process_item_unlimited:
  assumes "process_item ''last_saved'' ts (Some T) None it acc cnt st = (b, acc', cnt', st')"
  shows "b = (\<not> newer_than T it) \<and>
         acc' = (if newer_than T it then (case record_of it of None \<Rightarrow> acc | Some r \<Rightarrow> r # acc) else acc)"
  using assms
  by (auto simp: process_item_def Let_def newer_than_def record_of_def reached_stop_def
      split: item.splits option.splits if_splits)

lemma paginate_unlimited:
  assumes "paginate ''last_saved'' ts (Some T) None its acc cnt st = (b, acc', st')"
  shows "acc' = rev (List.map_filter record_of (takeWhile (newer_than T) its)) @ acc"
  using assms
proof (induction its arbitrary: acc cnt st)
  case Nil
  then show ?case by simp
next
  case (Cons it its)
  obtain b1 acc1 cnt1 st1 where
    p: "process_item ''last_saved'' ts (Some T) None it acc cnt st = (b1, acc1, cnt1, st1)"
    by (metis prod_cases4)
  note c = process_item_unlimited [OF p]
  show ?case
  proof (cases "newer_than T it")
    case True
    with c p Cons.prems have "paginate ''last_saved'' ts (Some T) None its acc1 cnt1 st1 = (b, acc', st')"
      by simp
    then have "acc' = rev (List.map_filter record_of (takeWhile (newer_than T) its)) @ acc1"
      by (rule Cons.IH)
    with c True show ?thesis
      by (simp split: option.splits)
  next
    case False
    with c p Cons.prems have "acc' = acc" by simp
    with False show ?thesis by simp
  qed
qed

lemma process_item_limited:
  assumes "process_item mode ts last_date (Some L) it acc cnt st = (b, acc', cnt', st')"
    and "int (length acc) \<le> cnt" and "cnt < L"
  shows "int (length acc') \<le> cnt' \<and> cnt' \<le> L \<and> (\<not> b \<longrightarrow> cnt' < L)"
  using assms
  by (auto simp: process_item_def Let_def split: item.splits option.splits if_splits)

lemma paginate_limited:
  assumes "paginate mode ts last_date (Some L) its acc cnt st = (b, acc', st')"
    and "int (length acc) \<le> cnt" and "cnt < L"
  shows "int (length acc') \<le> L"
  using assms
proof (induction its arbitrary: acc cnt st)
  case Nil
  then show ?case by simp
next
  case (Cons it its)
  obtain b1 acc1 cnt1 st1 where
    p: "process_item mode ts last_date (Some L) it acc cnt st = (b1, acc1, cnt1, st1)"
    by (metis prod_cases4)
  note c = process_item_limited [OF p Cons.prems(2,3)]
  show ?case
  proof (cases b1)
    case True
    with p Cons.prems(1) have "acc' = acc1" by simp
    with c show ?thesis by simp
  next
    case False
    with p Cons.prems(1) have "paginate mode ts last_date (Some L) its acc1 cnt1 st1 = (b, acc', st')"
      by simp
    then show ?thesis
      using c False by (intro Cons.IH [of acc1 cnt1 st1]) simp_all
  qed
qed

lemma parse_messages_limited:
  assumes "parse_messages e st script title category mode limit = Some (Inr messages, st')"
    and "determine_mode (fs e) (get_chat_file_path (root e) category title) (today_start e) mode limit
             = Inr (last_date, Some L, lg)"
    and "1 \<le> L"
  shows "int (length messages) \<le> L"
  using assms
proof (induction script arbitrary: st limit)
  case Nil
  then show ?case by simp
next
  case (Cons a rest)
  obtain b acc st1 where pg:
    "paginate mode (today_start e) last_date (Some L) (items a) [] 0 (emit (lg @ [IterMessages]) st)
       = (b, acc, st1)"
    by (metis prod_cases3)
  have acc_ok: "int (length acc) \<le> L"
    using pg Cons.prems(3) by (intro paginate_limited [OF pg]) simp_all
  note eq = parse_messages_Cons_Inr [OF Cons.prems(2) pg, of rest]
  show ?case
  proof (cases "\<not> b \<and> (\<exists>w. outcome a = RateLimited w)")
    case True
    then obtain w where w: "outcome a = RateLimited w" and nb: "\<not> b"
      by blast
    have "parse_messages e (emit [Sleep w] st1) rest title category mode (Some L) =
            Some (Inr messages, st')"
      using Cons.prems(1) eq w nb by simp
    then show ?thesis
      using determine_mode_idem [OF Cons.prems(2)] Cons.prems(3) by (rule Cons.IH)
  next
    case False
    then have "messages = acc"
      using Cons.prems(1) eq by (cases b; cases "outcome a") auto
    with acc_ok show ?thesis by simp
  qed
qed

lemma kept_ok:
  "kept (make_message_data d s m) \<Longrightarrow>
     length (msg_text (make_message_data d s m)) \<le> 500 \<and>
     (msg_text (make_message_data d s m) \<noteq> [] \<or> sender_id (make_message_data d s m) \<noteq> None)"
  by (auto simp: kept_def make_message_data_def truthy_def split: option.splits)

lemma last_saved_boundary:
  assumes "files p = Some (Array archive)" and "archive \<noteq> []" and "last archive = Rec last_record"
  shows "determine_mode files p ts ''last_saved'' limit = Inr (Some (date last_record), limit, [])"
  using assms by (simp add: determine_mode_def get_last_message_date_def)

lemma determine_mode_config_error:
  assumes "(mode = ''count'' \<and> limit = None) \<or> mode \<notin> {''last_saved'', ''today'', ''all'', ''count''}"
  shows "\<exists>msg. determine_mode files p ts mode limit = Inl (ValueError msg)"
  using assms by (auto simp: determine_mode_def truthy_def)

lemma process_chats_config_error:
  assumes "\<And>files title script st. \<exists>err.
             parse_messages \<lparr>root = rt, fs = files, today_start = today\<rparr> st script title category mode limit
               = Some (Inl err, st)"
  shows "\<exists>st'. process_chats rt today client category mode limit links (p, upd, st, files) =
           Some (p, upd, st', files)"
proof (induction links arbitrary: st)
  case Nil
  show ?case by simp
next
  case (Cons chat_link links)
  show ?case
  proof (cases "client chat_link")
    case ChannelPrivate
    then show ?thesis using Cons.IH by simp
  next
    case ResolveError
    then show ?thesis using Cons.IH by simp
  next
    case (Chat title script)
    obtain err where
      "parse_messages \<lparr>root = rt, fs = files, today_start = today\<rparr> (emit [GetEntity chat_link] st)
         script title category mode limit = Some (Inl err, emit [GetEntity chat_link] st)"
      using assms by blast
    with Chat show ?thesis using Cons.IH by simp
  qed
qed

subsection \<open>Concrete runs\<close>

text \<open>
  The archive holds one record dated 10; the source yields messages dated 12, 11, 10 and 9,
  newest first.
\<close>

lemma example_path_eq: "get_chat_file_path (u ''messages'') (u ''news'') (u ''chat'') = example_path"
  by code_simp

lemma example_boundary:
  "get_last_message_date (fs example_env)
     (get_chat_file_path (root example_env) (u ''news'') (u ''chat'')) = (Some 10, [])"
  by code_simp

lemma example_no_boundary:
  "get_last_message_date (fs example_env_empty)
     (get_chat_file_path (root example_env_empty) (u ''news'') (u ''chat'')) = (None, [])"
  by code_simp

lemma example_determine:
  "determine_mode (fs example_env) (get_chat_file_path (root example_env) (u ''news'') (u ''chat''))
     (today_start example_env) ''last_saved'' None = Inr (Some 10, None, [])"
  by code_simp

lemma example_fetch:
  "parse_messages example_env fresh_state [example_stream] (u ''chat'') (u ''news'') ''last_saved'' None =
     Some (Inr [example_record 11, example_record 12],
           \<lparr>request_count = 3, trace = [IterMessages, RandomDelay, RandomDelay, RandomDelay]\<rparr>)"
  by code_simp

lemma example_fetch_limit_1:
  "parse_messages example_env fresh_state [example_stream] (u ''chat'') (u ''news'') ''last_saved'' (Some 1) =
     Some (Inr [example_record 12], \<lparr>request_count = 1, trace = [IterMessages, RandomDelay]\<rparr>)"
  by code_simp

lemma example_first_fetch:
  "parse_messages example_env_empty fresh_state [example_stream] (u ''chat'') (u ''news'') ''last_saved'' None =
     Some (Inr [example_record 9, example_record 10, example_record 11, example_record 12],
           \<lparr>request_count = 4,
              trace = [IterMessages, RandomDelay, RandomDelay, RandomDelay, RandomDelay]\<rparr>)"
  by code_simp

lemma example_before_boundary:
  "rev (List.map_filter record_of (takeWhile (newer_than 10) (items example_stream))) =
     [example_record 11, example_record 12]"
  by code_simp

lemma example_noisy_fetch:
  "parse_messages example_env fresh_state [example_noisy_stream] (u ''chat'') (u ''news'') ''last_saved'' None =
     Some (Inr [example_record 12,
                \<lparr>date = 13, sender_id = Some 7, sender_username = None, msg_text = replicate 500 120\<rparr>],
           \<lparr>request_count = 6,
              trace = [IterMessages, RandomDelay, RandomDelay, RandomDelay, RandomDelay, RandomDelay,
                       RandomDelay]\<rparr>)"
  by code_simp

lemma example_paginate_flood:
  "paginate ''last_saved'' (today_start example_env) (Some 10) None (items example_flood) [] 0
     (emit ([] @ [IterMessages]) fresh_state) =
   (False, [example_record 12], \<lparr>request_count = 1, trace = [IterMessages, RandomDelay]\<rparr>)"
  by code_simp

lemma example_fetch_after_flood:
  "parse_messages example_env \<lparr>request_count = 1, trace = [IterMessages, RandomDelay] @ [Sleep 30]\<rparr>
     [example_stream] (u ''chat'') (u ''news'') ''last_saved'' None =
   Some (Inr [example_record 11, example_record 12],
         \<lparr>request_count = 4,
            trace = [IterMessages, RandomDelay, Sleep 30, IterMessages, RandomDelay, RandomDelay,
                     RandomDelay]\<rparr>)"
  by code_simp

subsection \<open>The claims about the fetch engine\<close>

text \<open>
  C1.  When the last record of the archive file has timestamp \<open>T\<close>, every record a fetch
  in mode \<open>last_saved\<close> returns is strictly newer than \<open>T\<close>, whatever the source yields
  and however often it raises \<open>FloodWaitError\<close> before; and the fetch does return a list
  once the source ends a call in another way.
\<close>

theorem last_saved_only_newer:
  assumes "fs e (get_chat_file_path (root e) category title) = Some (Array archive)"
    and "archive \<noteq> []" and "last archive = Rec last_record"
  shows "(\<forall>messages st'. parse_messages e st script title category ''last_saved'' limit =
              Some (Inr messages, st') \<longrightarrow>
            (\<forall>r \<in> set messages. date last_record < date r)) \<and>
         (script \<noteq> [] \<and> (\<forall>w. outcome (last script) \<noteq> RateLimited w) \<longrightarrow>
            (\<exists>messages st'. parse_messages e st script title category ''last_saved'' limit =
               Some (Inr messages, st')))"
proof -
  have dm: "determine_mode (fs e) (get_chat_file_path (root e) category title) (today_start e)
              ''last_saved'' limit = Inr (Some (date last_record), limit, [])"
    using assms by (rule last_saved_boundary)
  have new: "date last_record < date (make_message_data d s m)"
    if "\<not> reached_stop ''last_saved'' (today_start e) (Some (date last_record)) d" for d s m
    using that by (simp add: reached_stop_def make_message_data_def)
  have "\<forall>r \<in> set messages. date last_record < date r"
    if "parse_messages e st script title category ''last_saved'' limit = Some (Inr messages, st')"
    for messages st'
    using that dm by (rule parse_messages_new_records) (rule new)
  moreover have "\<exists>messages st'. parse_messages e st script title category ''last_saved'' limit =
               Some (Inr messages, st')"
    if "script \<noteq> []" "\<forall>w. outcome (last script) \<noteq> RateLimited w"
    using parse_messages_returns_list [OF dm that(1), of st] that(2) by blast
  ultimately show ?thesis
    by blast
qed

theorem last_saved_only_newer_witness:
  "fs example_env (get_chat_file_path (root example_env) (u ''news'') (u ''chat'')) =
     Some (Array [Rec (example_record 10)]) \<and>
   parse_messages example_env fresh_state [example_stream] (u ''chat'') (u ''news'') ''last_saved'' None =
     Some (Inr [example_record 11, example_record 12],
           \<lparr>request_count = 3, trace = [IterMessages, RandomDelay, RandomDelay, RandomDelay]\<rparr>) \<and>
   list_all (\<lambda>r. date (example_record 10) < date r) [example_record 11, example_record 12]"
proof -
  have a: "fs example_env (get_chat_file_path (root example_env) (u ''news'') (u ''chat'')) =
     Some (Array [Rec (example_record 10)])"
    by (simp add: example_env_def example_path_eq)
  have "\<forall>r \<in> set [example_record 11, example_record 12]. date (example_record 10) < date r"
    using last_saved_only_newer [OF a, of "example_record 10" fresh_state "[example_stream]" None]
      example_fetch by simp
  then show ?thesis
    using a example_fetch by (simp add: list_all_iff)
qed

text \<open>
  C3 (as the code has it).  In mode \<open>last_saved\<close>: without a resume boundary and without a
  configured limit the budget is 5000, and at most 5000 records are returned.  With a
  resume boundary \<open>T\<close> the budget is the configured limit: without one, the fetch returns
  the records of all messages before the first one dated at or before \<open>T\<close>; with a limit
  \<open>L\<close> of at least 1 it returns at most \<open>L\<close> records.
\<close>

theorem last_saved_budget:
  "(get_last_message_date (fs e) (get_chat_file_path (root e) category title) = (None, lg) \<longrightarrow>
      determine_mode (fs e) (get_chat_file_path (root e) category title) (today_start e)
        ''last_saved'' None = Inr (None, Some 5000, lg) \<and>
      (\<forall>messages st'.
           parse_messages e st script title category ''last_saved'' None = Some (Inr messages, st')
           \<longrightarrow> length messages \<le> 5000)) \<and>
   (get_last_message_date (fs e) (get_chat_file_path (root e) category title) = (Some T, lg) \<longrightarrow>
      determine_mode (fs e) (get_chat_file_path (root e) category title) (today_start e)
        ''last_saved'' limit = Inr (Some T, limit, lg) \<and>
      ((\<forall>w. outcome a \<noteq> RateLimited w) \<longrightarrow>
         (\<exists>st'. parse_messages e st (a # rest) title category ''last_saved'' None =
            Some (Inr (rev (List.map_filter record_of (takeWhile (newer_than T) (items a)))), st'))) \<and>
      (\<forall>L messages st'. 1 \<le> L \<and>
           parse_messages e st script title category ''last_saved'' (Some L) = Some (Inr messages, st')
           \<longrightarrow> int (length messages) \<le> L))"
proof -
  let ?p = "get_chat_file_path (root e) category title"
  have A: "determine_mode (fs e) ?p (today_start e) ''last_saved'' None = Inr (None, Some 5000, lg)"
    if "get_last_message_date (fs e) ?p = (None, lg)"
    using that by (simp add: determine_mode_def limit_or_def)
  have A': "length messages \<le> 5000"
    if "get_last_message_date (fs e) ?p = (None, lg)"
      "parse_messages e st script title category ''last_saved'' None = Some (Inr messages, st')"
    for messages st'
  proof -
    have "int (length messages) \<le> 5000"
      using that(2) A [OF that(1)] by (rule parse_messages_limited) simp
    then show ?thesis by simp
  qed
  have B: "determine_mode (fs e) ?p (today_start e) ''last_saved'' l = Inr (Some T, l, lg)"
    if "get_last_message_date (fs e) ?p = (Some T, lg)" for l
    using that by (simp add: determine_mode_def)
  have C: "\<exists>st'. parse_messages e st (a # rest) title category ''last_saved'' None =
            Some (Inr (rev (List.map_filter record_of (takeWhile (newer_than T) (items a)))), st')"
    if g: "get_last_message_date (fs e) ?p = (Some T, lg)" and o: "\<forall>w. outcome a \<noteq> RateLimited w"
  proof -
    obtain b acc st1 where pg:
      "paginate ''last_saved'' (today_start e) (Some T) None (items a) [] 0 (emit (lg @ [IterMessages]) st)
         = (b, acc, st1)"
      by (metis prod_cases3)
    have acc: "acc = rev (List.map_filter record_of (takeWhile (newer_than T) (items a)))"
      using paginate_unlimited [OF pg] by simp
    show ?thesis
      using parse_messages_Cons_Inr [OF B [OF g] pg, of rest] o acc
      by (cases b; cases "outcome a") auto
  qed
  have D: "int (length messages) \<le> L"
    if "get_last_message_date (fs e) ?p = (Some T, lg)" "1 \<le> L"
      "parse_messages e st script title category ''last_saved'' (Some L) = Some (Inr messages, st')"
    for L messages st'
    using that(3) B [OF that(1)] that(2) by (rule parse_messages_limited)
  show ?thesis
    using A A' B C D by blast
qed

theorem last_saved_budget_witness:
  "determine_mode (fs example_env_empty)
      (get_chat_file_path (root example_env_empty) (u ''news'') (u ''chat''))
      (today_start example_env_empty) ''last_saved'' None = Inr (None, Some 5000, []) \<and>
   length [example_record 9, example_record 10, example_record 11, example_record 12] \<le> 5000 \<and>
   determine_mode (fs example_env) (get_chat_file_path (root example_env) (u ''news'') (u ''chat''))
      (today_start example_env) ''last_saved'' (Some 1) = Inr (Some 10, Some 1, []) \<and>
   (\<exists>st'. parse_messages example_env fresh_state (example_stream # []) (u ''chat'') (u ''news'')
            ''last_saved'' None = Some (Inr [example_record 11, example_record 12], st')) \<and>
   int (length [example_record 12]) \<le> 1"
proof -
  have o: "\<forall>w. outcome example_stream \<noteq> RateLimited w"
    by (simp add: example_stream_def)
  show ?thesis
    using last_saved_budget [of example_env_empty "u ''news''" "u ''chat''" "[]" fresh_state
        "[example_stream]"]
      last_saved_budget [of example_env "u ''news''" "u ''chat''" "[]" fresh_state
        "[example_stream]" 10 "Some 1" example_stream "[]"]
      example_no_boundary example_boundary example_first_fetch example_fetch_limit_1
      example_before_boundary o
    by (simp del: parse_messages.simps)
qed

text \<open>
  C3, counterexample.  The archive ends at 10 and the limit is 1: the fetch returns the
  record of 12 alone and stops before the boundary, although the message of 11 is newer than
  the boundary; without a limit it returns both.
\<close>

theorem last_saved_limit_counterexample:
  "get_last_message_date (fs example_env) (get_chat_file_path (root example_env) (u ''news'') (u ''chat'')) =
     (Some 10, []) \<and>
   parse_messages example_env fresh_state [example_stream] (u ''chat'') (u ''news'') ''last_saved'' (Some 1) =
     Some (Inr [example_record 12], \<lparr>request_count = 1, trace = [IterMessages, RandomDelay]\<rparr>) \<and>
   parse_messages example_env fresh_state [example_stream] (u ''chat'') (u ''news'') ''last_saved'' None =
     Some (Inr [example_record 11, example_record 12],
           \<lparr>request_count = 3, trace = [IterMessages, RandomDelay, RandomDelay, RandomDelay]\<rparr>)"
  by code_simp

text \<open>
  C6.  Every record of the list a fetch returns, in any mode, has a text of at most 500
  characters and has a non-empty text or a sender id; and the fetch does return once the
  source ends a call in another way than by \<open>FloodWaitError\<close>.
\<close>

theorem parse_messages_records_kept:
  "(\<forall>messages st'. parse_messages e st script title category mode limit = Some (Inr messages, st') \<longrightarrow>
       (\<forall>r \<in> set messages. length (msg_text r) \<le> 500 \<and> (msg_text r \<noteq> [] \<or> sender_id r \<noteq> None))) \<and>
   (script \<noteq> [] \<and> (\<forall>w. outcome (last script) \<noteq> RateLimited w) \<longrightarrow>
       (\<exists>res. parse_messages e st script title category mode limit = Some res))"
proof (cases "determine_mode (fs e) (get_chat_file_path (root e) category title) (today_start e) mode limit")
  case (Inl err)
  then show ?thesis
    by (simp add: parse_messages_Inl)
next
  case (Inr x)
  then obtain last_date limit' lg where
    dm: "determine_mode (fs e) (get_chat_file_path (root e) category title) (today_start e) mode limit
           = Inr (last_date, limit', lg)"
    by (metis prod_cases3)
  have "\<forall>r \<in> set messages. length (msg_text r) \<le> 500 \<and> (msg_text r \<noteq> [] \<or> sender_id r \<noteq> None)"
    if "parse_messages e st script title category mode limit = Some (Inr messages, st')"
    for messages st'
    using that dm by (rule parse_messages_new_records) (rule kept_ok)
  moreover have "\<exists>res. parse_messages e st script title category mode limit = Some res"
    if "script \<noteq> []" "\<forall>w. outcome (last script) \<noteq> RateLimited w"
    using parse_messages_returns_list [OF dm that(1), of st] that(2) by blast
  ultimately show ?thesis
    by blast
qed

theorem parse_messages_records_kept_witness:
  "parse_messages example_env fresh_state [example_noisy_stream] (u ''chat'') (u ''news'') ''last_saved'' None =
     Some (Inr [example_record 12,
                \<lparr>date = 13, sender_id = Some 7, sender_username = None, msg_text = replicate 500 120\<rparr>],
           \<lparr>request_count = 6,
              trace = [IterMessages, RandomDelay, RandomDelay, RandomDelay, RandomDelay, RandomDelay,
                       RandomDelay]\<rparr>) \<and>
   list_all (\<lambda>r. length (msg_text r) \<le> 500 \<and> (msg_text r \<noteq> [] \<or> sender_id r \<noteq> None))
     [example_record 12,
      \<lparr>date = 13, sender_id = Some 7, sender_username = None, msg_text = replicate 500 120\<rparr>]"
proof -
  have "\<forall>r \<in> set [example_record 12,
      \<lparr>date = 13, sender_id = Some 7, sender_username = None, msg_text = replicate 500 120\<rparr>].
      length (msg_text r) \<le> 500 \<and> (msg_text r \<noteq> [] \<or> sender_id r \<noteq> None)"
    using parse_messages_records_kept
      [of example_env fresh_state "[example_noisy_stream]" "u ''chat''" "u ''news''" "''last_saved''" None]
      example_noisy_fetch by blast
  then show ?thesis
    using example_noisy_fetch by (simp add: list_all_iff)
qed

text \<open>
  C7.  When a call of \<open>iter_messages\<close> is read to its end (\<open>paginate\<close> is not left by
  \<open>break\<close>) and ends in \<open>FloodWaitError\<close> with \<open>seconds\<close>, the fetch goes on as the fetch
  with the same parameters on what the source does next, from the state reached with
  exactly \<open>Sleep seconds\<close> added; and the list it returns is the list of that fresh fetch
  from any state \<open>st0\<close>: the records accumulated before the pause are not part of it.
\<close>

theorem flood_wait_restarts:
  assumes "determine_mode (fs e) (get_chat_file_path (root e) category title) (today_start e) mode limit
             = Inr (last_date, limit', lg)"
    and "paginate mode (today_start e) last_date limit' (items a) [] 0 (emit (lg @ [IterMessages]) st)
             = (False, partial, st1)"
    and "outcome a = RateLimited seconds"
  shows "parse_messages e st (a # rest) title category mode limit =
           parse_messages e (st1\<lparr>trace := trace st1 @ [Sleep seconds]\<rparr>) rest title category mode limit \<and>
         map_option fst (parse_messages e st (a # rest) title category mode limit) =
           map_option fst (parse_messages e st0 rest title category mode limit)"
proof -
  have "parse_messages e st (a # rest) title category mode limit =
          parse_messages e (emit [Sleep seconds] st1) rest title category mode limit'"
    using parse_messages_Cons_Inr [OF assms(1,2)] assms(3) by simp
  then have eq: "parse_messages e st (a # rest) title category mode limit =
          parse_messages e (emit [Sleep seconds] st1) rest title category mode limit"
    using parse_messages_limit_idem [OF assms(1)] by simp
  then show ?thesis
    using parse_messages_state_indep [of e "emit [Sleep seconds] st1" rest title category mode limit st0]
    by (simp add: emit_def)
qed

theorem flood_wait_restarts_witness:
  "parse_messages example_env fresh_state (example_flood # [example_stream]) (u ''chat'') (u ''news'')
     ''last_saved'' None =
   Some (Inr [example_record 11, example_record 12],
         \<lparr>request_count = 4,
            trace = [IterMessages, RandomDelay, Sleep 30, IterMessages, RandomDelay, RandomDelay,
                     RandomDelay]\<rparr>) \<and>
   map_option fst (parse_messages example_env fresh_state (example_flood # [example_stream])
                     (u ''chat'') (u ''news'') ''last_saved'' None) =
   map_option fst (parse_messages example_env fresh_state [example_stream]
                     (u ''chat'') (u ''news'') ''last_saved'' None)"
proof -
  have o: "outcome example_flood = RateLimited 30"
    by (simp add: example_flood_def)
  show ?thesis
    using flood_wait_restarts [OF example_determine example_paginate_flood o,
        of "[example_stream]" fresh_state]
      example_fetch_after_flood example_fetch
    by (simp del: parse_messages.simps)
qed

text \<open>
  C8.  In mode \<open>count\<close> without a limit, and in a mode that is none of \<open>last_saved\<close>,
  \<open>today\<close>, \<open>all\<close>, \<open>count\<close>, \<open>parse_messages\<close> raises \<open>ValueError\<close> with the state
  untouched (no call of \<open>iter_messages\<close>, no pause, no log line); \<open>process_chat_file\<close>
  logs the error for that chat and goes on with the next link with its counters and the
  file system as they were, and comes to the end of the links.
\<close>

theorem configuration_error_aborts_chat_only:
  assumes "(mode = ''count'' \<and> limit = None) \<or> mode \<notin> {''last_saved'', ''today'', ''all'', ''count''}"
  shows "(\<exists>msg. parse_messages e st script title category mode limit = Some (Inl (ValueError msg), st)) \<and>
         (client chat_link = Chat title script \<longrightarrow>
            process_chats rt today client category mode limit (chat_link # links) (p, upd, st, files) =
            process_chats rt today client category mode limit links
              (p, upd, emit [GetEntity chat_link, LogError ''process_chat_file'' chat_link] st, files)) \<and>
         (\<exists>st'. process_chats rt today client category mode limit links (p, upd, st, files) =
            Some (p, upd, st', files))"
proof -
  have err: "\<exists>msg. parse_messages e' st' script' title' category mode limit = Some (Inl (ValueError msg), st')"
    for e' st' script' title'
    using determine_mode_config_error [OF assms] parse_messages_Inl by metis
  have step: "process_chats rt today client category mode limit (chat_link # links) (p, upd, st, files) =
            process_chats rt today client category mode limit links
              (p, upd, emit [GetEntity chat_link, LogError ''process_chat_file'' chat_link] st, files)"
    if "client chat_link = Chat title script"
  proof -
    obtain msg where
      "parse_messages \<lparr>root = rt, fs = files, today_start = today\<rparr> (emit [GetEntity chat_link] st)
         script title category mode limit = Some (Inl (ValueError msg), emit [GetEntity chat_link] st)"
      using err by blast
    with that show ?thesis
      by (simp add: emit_def)
  qed
  have all: "\<exists>st'. process_chats rt today client category mode limit links (p, upd, st, files) =
            Some (p, upd, st', files)"
    by (rule process_chats_config_error) (use err in blast)
  show ?thesis
    using err step all by blast
qed

theorem configuration_error_aborts_chat_only_witness:
  "(\<exists>msg. parse_messages example_env fresh_state [example_stream] (u ''chat'') (u ''news'') ''count'' None =
      Some (Inl (ValueError msg), fresh_state)) \<and>
   process_chats (u ''messages'') 0 example_client (u ''news'') ''count'' None
       [u ''t.me/a'', u ''t.me/b''] (0, 0, fresh_state, fs example_env) =
     process_chats (u ''messages'') 0 example_client (u ''news'') ''count'' None
       [u ''t.me/b'']
       (0, 0, emit [GetEntity (u ''t.me/a''), LogError ''process_chat_file'' (u ''t.me/a'')] fresh_state,
        fs example_env) \<and>
   (\<exists>st'. process_chats (u ''messages'') 0 example_client (u ''news'') ''count'' None
       [u ''t.me/a'', u ''t.me/b''] (0, 0, fresh_state, fs example_env) =
      Some (0, 0, st', fs example_env))"
proof -
  have m: "(''count'' = ''count'' \<and> (None :: int option) = None) \<or>
           ''count'' \<notin> {''last_saved'', ''today'', ''all'', ''count''}"
    by simp
  have c: "example_client (u ''t.me/a'') = Chat (u ''chat'') [example_stream]"
    by (simp add: example_client_def u_def)
  show ?thesis
    using configuration_error_aborts_chat_only [OF m, of example_env fresh_state "[example_stream]"
        "u ''chat''" "u ''news''" example_client "u ''t.me/a''" "u ''messages''" 0 "[u ''t.me/b'']" 0 0
        "fs example_env"]
      configuration_error_aborts_chat_only [OF m, of example_env fresh_state "[example_stream]"
        "u ''chat''" "u ''news''" example_client "u ''t.me/a''" "u ''messages''" 0
        "[u ''t.me/a'', u ''t.me/b'']" 0 0 "fs example_env"]
      c
    by (simp del: parse_messages.simps process_chats.simps)
qed

end
